theory Spec2Isabelle
  imports Complex_Main "HOL-Library.AList"
begin

section \<open>The whiteboard document and its change-sets\<close>

text \<open>
  The component \<^verbatim>\<open>BrainstormBoard\<close> keeps a tldraw store in sync with a remote document
  store. A record of the canvas is opaque apart from its identity, the field \<^verbatim>\<open>id\<close>
  (here \<open>rec_id\<close>, as \<open>id\<close> is the identity function).
\<close>

record 'a TLRecord =
  rec_id :: string
  body :: 'a

text \<open>
  The \<^verbatim>\<open>changes\<close> object handed to a store listener. The listener only ever reads it
  through \<^verbatim>\<open>Object.values\<close>, so each of its three parts is the list of those values in
  key order. An entry of \<^verbatim>\<open>updated\<close> is a pair \<^verbatim>\<open>[prev, next]\<close> whose second component
  may be missing.
\<close>

record 'a RecordsDiff =
  diff_added :: "'a TLRecord list"
  diff_updated :: "('a TLRecord \<times> 'a TLRecord option) list"
  diff_removed :: "'a TLRecord list"

text \<open>
  The object held by \<^verbatim>\<open>pendingChanges.current\<close>: three JavaScript objects used as
  dictionaries from record id to record.
\<close>

record 'a PendingChanges =
  added :: "string \<rightharpoonup> 'a TLRecord"
  updated :: "string \<rightharpoonup> 'a TLRecord"
  removed :: "string \<rightharpoonup> 'a TLRecord"

definition emptyChanges :: "'a PendingChanges" where
  "emptyChanges = \<lparr>added = Map.empty, updated = Map.empty, removed = Map.empty\<rparr>"

subsection \<open>The fold rules of the listener\<close>

text \<open>
  Body of the first \<^verbatim>\<open>forEach\<close>:
  \<^verbatim>\<open>pending.added[rec.id] = rec; delete pending.removed[rec.id]\<close>.
\<close>

definition absorbAdded :: "'a TLRecord \<Rightarrow> 'a PendingChanges \<Rightarrow> 'a PendingChanges" where
  "absorbAdded r p =
     p\<lparr>added := (added p)(rec_id r \<mapsto> r), removed := (removed p)(rec_id r := None)\<rparr>"

text \<open>
  Body of the second \<^verbatim>\<open>forEach\<close>: a change without \<^verbatim>\<open>next\<close> is skipped; a record
  that is in the added buffer is replaced there; otherwise it is stored as an update and a
  pending removal of the same id is deleted. A stored record is an object, so the test
  \<^verbatim>\<open>if (pending.added[next.id])\<close> succeeds exactly when the key is present.
\<close>

definition absorbUpdated ::
  "'a TLRecord \<times> 'a TLRecord option \<Rightarrow> 'a PendingChanges \<Rightarrow> 'a PendingChanges" where
  "absorbUpdated change p =
     (case snd change of
        None \<Rightarrow> p
      | Some next \<Rightarrow>
          (case added p (rec_id next) of
             Some _ \<Rightarrow> p\<lparr>added := (added p)(rec_id next \<mapsto> next)\<rparr>
           | None \<Rightarrow> p\<lparr>updated := (updated p)(rec_id next \<mapsto> next),
                      removed := (removed p)(rec_id next := None)\<rparr>))"

text \<open>
  Body of the third \<^verbatim>\<open>forEach\<close>: a record added in this buffer is forgotten; otherwise a
  pending update is dropped and the removal is stored.
\<close>

definition absorbRemoved :: "'a TLRecord \<Rightarrow> 'a PendingChanges \<Rightarrow> 'a PendingChanges" where
  "absorbRemoved r p =
     (case added p (rec_id r) of
        Some _ \<Rightarrow> p\<lparr>added := (added p)(rec_id r := None)\<rparr>
      | None \<Rightarrow> p\<lparr>updated := (updated p)(rec_id r := None),
                 removed := (removed p)(rec_id r \<mapsto> r)\<rparr>)"

text \<open>
  One notification: all added records first, then all updated ones, then all removed ones,
  as the three loops of the listener run.
\<close>

definition absorb :: "'a RecordsDiff \<Rightarrow> 'a PendingChanges \<Rightarrow> 'a PendingChanges" where
  "absorb changes p =
     fold absorbRemoved (diff_removed changes)
       (fold absorbUpdated (diff_updated changes)
         (fold absorbAdded (diff_added changes) p))"

text \<open>Notifications that carry a single operation, and a record built from its parts.\<close>

definition addOf :: "'a TLRecord \<Rightarrow> 'a RecordsDiff" where
  "addOf r = \<lparr>diff_added = [r], diff_updated = [], diff_removed = []\<rparr>"

definition updateOf :: "'a TLRecord \<Rightarrow> 'a TLRecord \<Rightarrow> 'a RecordsDiff" where
  "updateOf prev next = \<lparr>diff_added = [], diff_updated = [(prev, Some next)], diff_removed = []\<rparr>"

definition removeOf :: "'a TLRecord \<Rightarrow> 'a RecordsDiff" where
  "removeOf r = \<lparr>diff_added = [], diff_updated = [], diff_removed = [r]\<rparr>"

definition shape :: "string \<Rightarrow> 'a \<Rightarrow> 'a TLRecord" where
  "shape i v = \<lparr>rec_id = i, body = v\<rparr>"

text \<open>No id is in two of the three maps.\<close>

definition disjointIds :: "'a PendingChanges \<Rightarrow> bool" where
  "disjointIds p =
     (dom (added p) \<inter> dom (updated p) = {} \<and>
      dom (added p) \<inter> dom (removed p) = {} \<and>
      dom (updated p) \<inter> dom (removed p) = {})"

section \<open>The board: buffer, debounce timer and outbound push\<close>

datatype SyncStatus = Synced | Syncing | SyncError

datatype ChangeSource = User | Remote

text \<open>
  The state the component \<^verbatim>\<open>BrainstormBoard\<close> works on, for a board that is not read-only
  (a read-only board registers no listener).

  \<^item> \<open>document\<close>: the records of the local tldraw store, as far as the inbound path writes
    them;
  \<^item> \<open>storeNeeds\<close>: the integrity check of the store (tldraw's \<^verbatim>\<open>ensureStoreIsUsable\<close>,
    outside this repository) as long as it has not run: given the records the store
    holds, the records of the document it will create for itself, such as the document
    record and a first page when they are missing. Once the check has run the store is
    usable and stays so, and the field is the function that gives no record;
  \<^item> \<open>loading\<close>, \<open>syncStatus\<close>: the two React state variables;
  \<^item> \<open>heap\<close>, \<open>nextObject\<close>: the change-set objects allocated so far, by address, and the
    next unused address. The listener mutates the object it reads from the ref, and the
    timer callback closes over that same object, so objects are kept apart from the ref;
  \<^item> \<open>pendingChanges\<close>: the address held by \<^verbatim>\<open>pendingChanges.current\<close>;
  \<^item> \<open>timeoutRef\<close>: \<^verbatim>\<open>timeoutRef.current\<close>, a timer handle or null;
  \<^item> \<open>timers\<close>, \<open>nextHandle\<close>: the host's table of live timers, each with its handle, the
    time it is due and the address of the \<^verbatim>\<open>pending\<close> object its callback closes over;
  \<^item> \<open>pushes\<close>: the calls of \<^verbatim>\<open>updateWhiteboardShapes\<close> made so far, with the time of the
    call and the payload passed;
  \<^item> \<open>inFlight\<close>: how many of those calls have not settled yet;
  \<^item> \<open>flushes\<close>: the runs of the timer callback so far, with the time and the snapshot
    taken (a trace kept for stating properties; the program does not read it).
\<close>

record 'a Board =
  document :: "string \<rightharpoonup> 'a TLRecord"
  storeNeeds :: "(string \<rightharpoonup> 'a TLRecord) \<Rightarrow> 'a TLRecord list"
  loading :: bool
  syncStatus :: SyncStatus
  heap :: "nat \<Rightarrow> 'a PendingChanges"
  nextObject :: nat
  pendingChanges :: nat
  timeoutRef :: "nat option"
  timers :: "(nat \<times> nat \<times> nat) list"
  nextHandle :: nat
  pushes :: "(nat \<times> 'a PendingChanges) list"
  inFlight :: nat
  flushes :: "(nat \<times> 'a PendingChanges) list"

text \<open>
  The board as it is mounted, on a store whose integrity check has nothing to create (the
  board on a store that still lacks records of its own is \<open>initialBoard\<close> with another
  \<open>storeNeeds\<close>). Handles start at 1, so a handle is never falsy.
\<close>

definition initialBoard :: "'a Board" where
  "initialBoard =
     \<lparr>document = Map.empty, storeNeeds = (\<lambda>_. []), loading = True, syncStatus = Synced,
      heap = (\<lambda>_. emptyChanges), nextObject = 1, pendingChanges = 0,
      timeoutRef = None, timers = [], nextHandle = 1,
      pushes = [], inFlight = 0, flushes = []\<rparr>"

subsection \<open>The host's timers\<close>

definition setTimeout :: "nat \<Rightarrow> nat \<Rightarrow> 'a Board \<Rightarrow> nat \<times> 'a Board" where
  "setTimeout due env b =
     (nextHandle b,
      b\<lparr>timers := timers b @ [(nextHandle b, due, env)], nextHandle := Suc (nextHandle b)\<rparr>)"

definition clearTimeout :: "nat \<Rightarrow> 'a Board \<Rightarrow> 'a Board" where
  "clearTimeout h b = b\<lparr>timers := filter (\<lambda>t. fst t \<noteq> h) (timers b)\<rparr>"

subsection \<open>The store listener\<close>

text \<open>
  The callback passed to \<^verbatim>\<open>store.listen\<close>, called at time \<open>now\<close>. A remote notification
  returns at once. Otherwise the status becomes \<^verbatim>\<open>"syncing"\<close>, the changes are merged into
  the object read from the ref, a live timer is cleared, and a new timer is set 500 ms
  ahead whose callback closes over that object.
\<close>

definition listener :: "nat \<Rightarrow> ChangeSource \<Rightarrow> 'a RecordsDiff \<Rightarrow> 'a Board \<Rightarrow> 'a Board" where
  "listener now source changes b =
     (case source of
        Remote \<Rightarrow> b
      | User \<Rightarrow>
          (let b1 = b\<lparr>syncStatus := Syncing\<rparr>;
               pending = pendingChanges b1;
               b2 = b1\<lparr>heap := (heap b1)(pending := absorb changes (heap b1 pending))\<rparr>;
               b3 = (case timeoutRef b2 of None \<Rightarrow> b2 | Some h \<Rightarrow> clearTimeout h b2);
               (h', b4) = setTimeout (now + 500) pending b3
           in b4\<lparr>timeoutRef := Some h'\<rparr>))"

subsection \<open>The timer callback\<close>

text \<open>\<^verbatim>\<open>Object.keys(payload.added).length > 0 || ...\<close> on the three maps of the payload.\<close>

definition hasChanges :: "'a PendingChanges \<Rightarrow> bool" where
  "hasChanges payload =
     (dom (added payload) \<noteq> {} \<or> dom (updated payload) \<noteq> {} \<or> dom (removed payload) \<noteq> {})"

text \<open>
  The callback runs in three steps. The snapshot: the spread expressions copy the three
  maps of the captured object into new objects, so the payload is the value the object
  has at that moment.
\<close>

definition takeSnapshot :: "nat \<Rightarrow> 'a Board \<Rightarrow> 'a PendingChanges" where
  "takeSnapshot pending b = heap b pending"

text \<open>
  The reset: \<^verbatim>\<open>pendingChanges.current\<close> is set to a new empty object and
  \<^verbatim>\<open>timeoutRef.current\<close> to null.
\<close>

definition resetBuffer :: "'a Board \<Rightarrow> 'a Board" where
  "resetBuffer b =
     b\<lparr>heap := (heap b)(nextObject b := emptyChanges),
       pendingChanges := nextObject b,
       nextObject := Suc (nextObject b),
       timeoutRef := None\<rparr>"

text \<open>
  The send: with changes in the payload, \<^verbatim>\<open>updateWhiteboardShapes\<close> is called and the
  callback waits for it; without, the status becomes \<^verbatim>\<open>"synced"\<close> at once.
\<close>

definition beginSend :: "nat \<Rightarrow> 'a PendingChanges \<Rightarrow> 'a Board \<Rightarrow> 'a Board" where
  "beginSend now payload b =
     (if hasChanges payload
      then b\<lparr>pushes := pushes b @ [(now, payload)], inFlight := Suc (inFlight b)\<rparr>
      else b\<lparr>syncStatus := Synced\<rparr>)"

definition flushCallback :: "nat \<Rightarrow> nat \<Rightarrow> 'a Board \<Rightarrow> 'a Board" where
  "flushCallback now pending b =
     (let payload = takeSnapshot pending b;
          b1 = resetBuffer b
      in beginSend now payload (b1\<lparr>flushes := flushes b1 @ [(now, payload)]\<rparr>))"

text \<open>
  The rest of the callback, run when the awaited call settles: \<^verbatim>\<open>"synced"\<close> when it
  resolved, \<^verbatim>\<open>"error"\<close> from the catch block when it rejected. A settlement with no call
  in flight is no event of the program and changes nothing.
\<close>

definition pushSettled :: "bool \<Rightarrow> 'a Board \<Rightarrow> 'a Board" where
  "pushSettled ok b =
     (if inFlight b = 0 then b
      else b\<lparr>inFlight := inFlight b - 1,
             syncStatus := (if ok then Synced else SyncError)\<rparr>)"

section \<open>The inbound path\<close>

text \<open>
  The loop \<^verbatim>\<open>records.forEach(record => changes.added[record.id] = record)\<close> builds an
  object; \<^verbatim>\<open>Object.values\<close> reads it back in insertion order, a key assigned twice
  keeping its first position and its last value. (Record ids are not written like array
  indices, which an object would list first.)
\<close>

definition collectAdded :: "'a TLRecord list \<Rightarrow> (string \<times> 'a TLRecord) list" where
  "collectAdded records = fold (\<lambda>r al. AList.update (rec_id r) r al) records []"

text \<open>
  The store's \<^verbatim>\<open>put\<close> (tldraw, outside this repository): each record is written under
  its id, replacing a record of that id. The change it reports lists a record as added
  when its id was new and as updated otherwise, and never lists a removal.
\<close>

definition put :: "'a TLRecord list \<Rightarrow> (string \<rightharpoonup> 'a TLRecord) \<Rightarrow> (string \<rightharpoonup> 'a TLRecord)" where
  "put rs doc = fold (\<lambda>r d. d(rec_id r \<mapsto> r)) rs doc"

definition putDiff :: "'a TLRecord list \<Rightarrow> (string \<rightharpoonup> 'a TLRecord) \<Rightarrow> 'a RecordsDiff" where
  "putDiff rs doc =
     \<lparr>diff_added = filter (\<lambda>r. doc (rec_id r) = None) rs,
      diff_updated =
        concat (map (\<lambda>r. case doc (rec_id r) of None \<Rightarrow> [] | Some prev \<Rightarrow> [(prev, Some r)]) rs),
      diff_removed = []\<rparr>"

text \<open>
  The store's integrity check (tldraw's \<^verbatim>\<open>ensureStoreIsUsable\<close>): the records the store
  finds missing are created by a put of the store's own, outside the merge, so the change
  is reported with source \<^verbatim>\<open>user\<close>, and the listener is called with it when it holds a
  record of the document. From then on the store is usable.
\<close>

definition ensureStoreIsUsable :: "nat \<Rightarrow> 'a Board \<Rightarrow> 'a Board" where
  "ensureStoreIsUsable now b =
     (let created = storeNeeds b (document b);
          b1 = b\<lparr>storeNeeds := (\<lambda>_. [])\<rparr>
      in if created = [] then b1
         else listener now User
                \<lparr>diff_added = created, diff_updated = [], diff_removed = []\<rparr> b1)"

text \<open>
  The store's \<^verbatim>\<open>mergeRemoteChanges\<close> (tldraw) runs the function it is given, reports the
  resulting change to the listeners with source \<^verbatim>\<open>remote\<close>, and ends with the integrity
  check. The listener above is registered with the filter \<^verbatim>\<open>source: "user"\<close>, by which
  the store would not call it for the remote change at all; the model calls it, so that
  the guard in the listener is what keeps the change out.
\<close>

definition mergeRemoteChanges :: "nat \<Rightarrow> 'a TLRecord list \<Rightarrow> 'a Board \<Rightarrow> 'a Board" where
  "mergeRemoteChanges now rs b =
     ensureStoreIsUsable now
       (listener now Remote (putDiff rs (document b)) (b\<lparr>document := put rs (document b)\<rparr>))"

text \<open>The callback passed to \<^verbatim>\<open>subscribeToWhiteboard\<close>.\<close>

definition onRecords :: "nat \<Rightarrow> 'a TLRecord list \<Rightarrow> 'a Board \<Rightarrow> 'a Board" where
  "onRecords now records b =
     (let b1 = (if 0 < length records
                then mergeRemoteChanges now (map snd (collectAdded records)) b
                else b)
      in b1\<lparr>loading := False\<rparr>)"

section \<open>The event loop\<close>

text \<open>
  What can happen to the board: the store notifies the listener of a change, the remote
  store delivers a batch of records, or a call of \<^verbatim>\<open>updateWhiteboardShapes\<close> settles
  (\<open>True\<close>: resolved, \<open>False\<close>: rejected).
\<close>

datatype 'a Event =
    Notify ChangeSource "'a RecordsDiff"
  | Records "'a TLRecord list"
  | PushSettled bool

text \<open>
  A timer that is still in the table when its turn comes is removed and its callback runs,
  at the time the timer was due.
\<close>

definition fireTimer :: "nat \<times> nat \<times> nat \<Rightarrow> 'a Board \<Rightarrow> 'a Board" where
  "fireTimer t b =
     (if t \<in> set (timers b)
      then flushCallback (fst (snd t)) (snd (snd t)) (b\<lparr>timers := remove1 t (timers b)\<rparr>)
      else b)"

text \<open>
  Time passes up to \<open>t\<close>: the timers due by then fire, earliest first. (The callback sets
  no timer, so the timers due are those in the table at the start.)
\<close>

definition advance :: "nat \<Rightarrow> 'a Board \<Rightarrow> 'a Board" where
  "advance t b =
     fold fireTimer (sort_key (\<lambda>x. fst (snd x)) (filter (\<lambda>x. fst (snd x) \<le> t) (timers b))) b"

fun handle :: "nat \<Rightarrow> 'a Event \<Rightarrow> 'a Board \<Rightarrow> 'a Board" where
  "handle now (Notify source changes) b = listener now source changes b"
| "handle now (Records rs) b = onRecords now rs b"
| "handle now (PushSettled ok) b = pushSettled ok b"

text \<open>An event at time \<open>t\<close> is handled after the timers due by \<open>t\<close> have fired.\<close>

definition step :: "nat \<times> 'a Event \<Rightarrow> 'a Board \<Rightarrow> 'a Board" where
  "step e b = handle (fst e) (snd e) (advance (fst e) b)"

definition run :: "(nat \<times> 'a Event) list \<Rightarrow> 'a Board \<Rightarrow> 'a Board" where
  "run es b = fold step es b"

text \<open>
  The timer discipline of the listener: the table holds no timer when the ref is null,
  and otherwise exactly the timer the ref names, whose callback closes over the object
  the buffer ref points to.
\<close>

definition timerInv :: "'a Board \<Rightarrow> bool" where
  "timerInv b =
     (case timers b of
        [] \<Rightarrow> timeoutRef b = None
      | [t] \<Rightarrow> timeoutRef b = Some (fst t) \<and> snd (snd t) = pendingChanges b
      | _ \<Rightarrow> False)"

text \<open>
  Two boards that differ at most in the status shown and in the number of calls in flight.
\<close>

definition sameOutbound :: "'a Board \<Rightarrow> 'a Board \<Rightarrow> bool" where
  "sameOutbound b b' =
     (document b = document b' \<and> storeNeeds b = storeNeeds b' \<and>
      loading b = loading b' \<and> heap b = heap b' \<and>
      nextObject b = nextObject b' \<and> pendingChanges b = pendingChanges b' \<and>
      timeoutRef b = timeoutRef b' \<and> timers b = timers b' \<and> nextHandle b = nextHandle b' \<and>
      pushes b = pushes b' \<and> flushes b = flushes b')"


text \<open>The last record of a batch that has a given id.\<close>

definition lastWithId :: "'a TLRecord list \<Rightarrow> string \<Rightarrow> 'a TLRecord option" where
  "lastWithId rs i = find (\<lambda>r. rec_id r = i) (rev rs)"

section \<open>Presence\<close>

subsection \<open>JavaScript values the presence code meets\<close>

text \<open>
  A number: finite, one of the two infinities, or NaN. Subtraction and comparison are
  those of the language: NaN compares false with everything.
\<close>

datatype JSNumber = Finite real | PosInf | NegInf | NaN

fun jsSub :: "JSNumber \<Rightarrow> JSNumber \<Rightarrow> JSNumber" where
  "jsSub (Finite a) (Finite b) = Finite (a - b)"
| "jsSub NaN _ = NaN"
| "jsSub _ NaN = NaN"
| "jsSub PosInf PosInf = NaN"
| "jsSub NegInf NegInf = NaN"
| "jsSub PosInf _ = PosInf"
| "jsSub NegInf _ = NegInf"
| "jsSub (Finite _) PosInf = NegInf"
| "jsSub (Finite _) NegInf = PosInf"

fun jsLess :: "JSNumber \<Rightarrow> JSNumber \<Rightarrow> bool" where
  "jsLess (Finite a) (Finite b) = (a < b)"
| "jsLess NegInf (Finite _) = True"
| "jsLess NegInf PosInf = True"
| "jsLess (Finite _) PosInf = True"
| "jsLess _ _ = False"

datatype JSError = TypeError

text \<open>
  A property of an object, as a truthiness test and a call see it: missing or falsy; a
  truthy value that is no function; or a function, with the number a call of it returns.
\<close>

datatype Member = Falsy | TruthyValue | Method JSNumber

fun truthy :: "Member \<Rightarrow> bool" where
  "truthy Falsy = False"
| "truthy TruthyValue = True"
| "truthy (Method _) = True"

fun callMember :: "Member \<Rightarrow> JSError + JSNumber" where
  "callMember (Method r) = Inr r"
| "callMember TruthyValue = Inl TypeError"
| "callMember Falsy = Inl TypeError"

text \<open>
  The field \<^verbatim>\<open>lastActive\<close> of a received presence record: undefined or null; a number; a
  string or boolean; or an object, given by its properties \<^verbatim>\<open>toMillis\<close> and \<^verbatim>\<open>getTime\<close>.
  Numbers, strings and booleans have neither property.
\<close>

datatype LastActive =
    Absent
  | EpochNumber JSNumber
  | OtherPrimitive
  | ObjectWith Member Member

text \<open>A Firestore timestamp and a Date, each holding a number of milliseconds.\<close>

definition Timestamp :: "JSNumber \<Rightarrow> LastActive" where
  "Timestamp m = ObjectWith (Method m) Falsy"

definition DateObject :: "JSNumber \<Rightarrow> LastActive" where
  "DateObject m = ObjectWith Falsy (Method m)"

subsection \<open>The presence subscriber\<close>

text \<open>
  A received presence record, with the fields the component reads (\<^verbatim>\<open>x\<close> and \<^verbatim>\<open>y\<close> are
  \<open>cursor_x\<close> and \<open>cursor_y\<close> here).
\<close>

record PresenceUser =
  userId :: string
  userName :: string
  color :: string
  cursor_x :: JSNumber
  cursor_y :: JSNumber
  lastActive :: LastActive

text \<open>
  \<^verbatim>\<open>u.lastActive?.toMillis ? u.lastActive.toMillis() :
    u.lastActive?.getTime ? u.lastActive.getTime() : Date.now()\<close>.
  The callback runs without interruption; every reading of the clock in it is taken to
  give the same time \<open>now\<close>.
\<close>

definition resolveLastActive :: "int \<Rightarrow> LastActive \<Rightarrow> JSError + JSNumber" where
  "resolveLastActive now la =
     (case la of
        Absent \<Rightarrow> Inr (Finite (of_int now))
      | EpochNumber _ \<Rightarrow> Inr (Finite (of_int now))
      | OtherPrimitive \<Rightarrow> Inr (Finite (of_int now))
      | ObjectWith toMillis getTime \<Rightarrow>
          if truthy toMillis then callMember toMillis
          else if truthy getTime then callMember getTime
          else Inr (Finite (of_int now)))"

text \<open>The function passed to \<^verbatim>\<open>users.filter\<close>, for the viewer \<open>uid\<close>.\<close>

definition isActive :: "string \<Rightarrow> int \<Rightarrow> PresenceUser \<Rightarrow> JSError + bool" where
  "isActive uid now u =
     (if userId u = uid then Inr False
      else case resolveLastActive now (lastActive u) of
             Inl e \<Rightarrow> Inl e
           | Inr millis \<Rightarrow> Inr (jsLess (jsSub (Finite (of_int now)) millis) (Finite 60000)))"

text \<open>\<^verbatim>\<open>Array.prototype.filter\<close> with a function that may throw: the first throw ends it.\<close>

fun filterE :: "('a \<Rightarrow> JSError + bool) \<Rightarrow> 'a list \<Rightarrow> JSError + 'a list" where
  "filterE f [] = Inr []"
| "filterE f (u # us) =
     (case f u of
        Inl e \<Rightarrow> Inl e
      | Inr keep \<Rightarrow>
          (case filterE f us of
             Inl e \<Rightarrow> Inl e
           | Inr kept \<Rightarrow> Inr (if keep then u # kept else kept)))"

text \<open>
  The callback passed to \<^verbatim>\<open>subscribeToPresence\<close>: \<open>viewer\<close> is the uid of the signed-in
  user, if any, and \<open>otherUsers\<close> the state variable the cursors are drawn from. The
  result is the new value of that variable, or the error thrown.
\<close>

definition onPresence ::
  "string option \<Rightarrow> int \<Rightarrow> PresenceUser list \<Rightarrow> PresenceUser list \<Rightarrow> JSError + PresenceUser list" where
  "onPresence viewer now users otherUsers =
     (case viewer of
        None \<Rightarrow> Inr otherUsers
      | Some uid \<Rightarrow>
          (case filterE (isActive uid now) users of
             Inl e \<Rightarrow> Inl e
           | Inr activeUsers \<Rightarrow> Inr activeUsers))"

text \<open>
  What the description of the subscriber says of a record's timestamp: an epoch-millis
  number is the time itself, a timestamp object gives it through its conversion to
  milliseconds, and with neither form the record counts as seen now; the record is shown
  when its age is below the threshold of 60 seconds.
\<close>

definition claimedMillis :: "LastActive \<Rightarrow> JSNumber option" where
  "claimedMillis la =
     (case la of
        EpochNumber n \<Rightarrow> Some n
      | ObjectWith (Method m) _ \<Rightarrow> Some m
      | ObjectWith _ (Method m) \<Rightarrow> Some m
      | _ \<Rightarrow> None)"

definition claimedRecent :: "int \<Rightarrow> LastActive \<Rightarrow> bool" where
  "claimedRecent now la =
     (case claimedMillis la of
        None \<Rightarrow> True
      | Some m \<Rightarrow> jsLess (jsSub (Finite (of_int now)) m) (Finite 60000))"

text \<open>
  What the code reads: the milliseconds of an object, through \<^verbatim>\<open>toMillis\<close> or, when that
  is not set, through \<^verbatim>\<open>getTime\<close>. Every other value, a number included, is not read: the
  record then has the age 0.
\<close>

definition readMillis :: "LastActive \<Rightarrow> JSNumber option" where
  "readMillis la =
     (case la of
        ObjectWith (Method m) _ \<Rightarrow> Some m
      | ObjectWith Falsy (Method m) \<Rightarrow> Some m
      | _ \<Rightarrow> None)"

definition seenRecently :: "int \<Rightarrow> LastActive \<Rightarrow> bool" where
  "seenRecently now la =
     (case readMillis la of
        None \<Rightarrow> True
      | Some m \<Rightarrow> jsLess (jsSub (Finite (of_int now)) m) (Finite 60000))"

text \<open>A timestamp the resolution can read without a call of something that is no function.\<close>

definition readable :: "LastActive \<Rightarrow> bool" where
  "readable la =
     (case la of
        ObjectWith TruthyValue _ \<Rightarrow> False
      | ObjectWith Falsy TruthyValue \<Rightarrow> False
      | _ \<Rightarrow> True)"

subsection \<open>The presence publisher\<close>

record PresencePayload =
  p_userId :: string
  p_userName :: string
  p_color :: string
  p_x :: JSNumber
  p_y :: JSNumber

record AuthUser =
  auth_uid :: string
  auth_email :: "string option"

record Publisher =
  lastBroadcastRef :: int
  published :: "PresencePayload list"

text \<open>\<^verbatim>\<open>Math.round\<close>: the nearest integer, a tie going up; infinities and NaN stay.\<close>

definition mathRound :: "JSNumber \<Rightarrow> JSNumber" where
  "mathRound v = (case v of Finite r \<Rightarrow> Finite (of_int \<lfloor>r + 1 / 2\<rfloor>) | _ \<Rightarrow> v)"

definition isNaN :: "JSNumber \<Rightarrow> bool" where
  "isNaN v = (v = NaN)"

text \<open>
  \<^verbatim>\<open>userProfile?.name || user.email?.split('@')[0] || "Anon"\<close>: a missing or empty
  string is falsy.
\<close>

definition displayName :: "string option \<Rightarrow> string option \<Rightarrow> string" where
  "displayName profileName mail =
     (let fromProfile = (case profileName of None \<Rightarrow> [] | Some n \<Rightarrow> n);
          fromMail = (case mail of None \<Rightarrow> [] | Some e \<Rightarrow> takeWhile (\<lambda>c. c \<noteq> CHR ''@'') e)
      in if fromProfile \<noteq> [] then fromProfile
         else if fromMail \<noteq> [] then fromMail
         else ''Anon'')"

text \<open>
  One tick of the sampling interval, at time \<open>now\<close>, with the pointer at \<open>point\<close>. The
  interval only runs for a signed-in user.
\<close>

definition broadcastTick ::
  "int \<Rightarrow> AuthUser \<Rightarrow> string option \<Rightarrow> JSNumber \<times> JSNumber \<Rightarrow> Publisher \<Rightarrow> Publisher" where
  "broadcastTick now user profileName point s =
     (if now - lastBroadcastRef s < 100 then s
      else if \<not> isNaN (fst point) \<and> \<not> isNaN (snd point)
      then s\<lparr>published := published s @
                [\<lparr>p_userId = auth_uid user,
                  p_userName = displayName profileName (auth_email user),
                  p_color = ''#3b82f6'',
                  p_x = mathRound (fst point),
                  p_y = mathRound (snd point)\<rparr>],
              lastBroadcastRef := now\<rparr>
      else s)"

section \<open>Example boards and records\<close>

text \<open>A board on which one shape was added at time 0: its timer is due at 500.\<close>

definition boardWithEdit :: "nat Board" where
  "boardWithEdit = listener 0 User (addOf (shape ''shape:1'' 1)) initialBoard"

text \<open>That board once its timer has fired: one call is in flight.\<close>

definition boardSending :: "nat Board" where
  "boardSending = advance 500 boardWithEdit"

text \<open>And with a second shape added at 510, while that call is in flight.\<close>

definition boardBusy :: "nat Board" where
  "boardBusy = listener 510 User (addOf (shape ''shape:2'' 2)) boardSending"



text \<open>A presence record of the user \<open>i\<close> with a given timestamp.\<close>

definition userAt :: "string \<Rightarrow> LastActive \<Rightarrow> PresenceUser" where
  "userAt i la =
     \<lparr>userId = i, userName = ''Bo'', color = ''#3b82f6'',
      cursor_x = Finite 10, cursor_y = Finite 20, lastActive = la\<rparr>"

section \<open>Properties of the fold rules\<close>

lemma absorb_addOf: "absorb (addOf r) p = absorbAdded r p"
  by (simp add: absorb_def addOf_def)

lemma absorb_updateOf: "absorb (updateOf q r) p = absorbUpdated (q, Some r) p"
  by (simp add: absorb_def updateOf_def)

lemma absorb_removeOf: "absorb (removeOf r) p = absorbRemoved r p"
  by (simp add: absorb_def removeOf_def)

lemmas absorb_single = absorb_addOf absorb_updateOf absorb_removeOf
  absorbAdded_def absorbUpdated_def absorbRemoved_def

text \<open>
  Claim C2. Within one debounce window, absorbing an add of an id followed by a remove of
  the same id leaves no entry for that id in any of the three maps, and absorbing an add
  with payload A followed by an update with payload B leaves the single entry
  \<open>added[id] = B\<close>, with no updated and no removed entry. Started from the empty buffer the
  first sequence gives back the empty buffer and the second the buffer whose only entry is
  \<open>added[id] = B\<close>; started from any buffer in which the id has no pending update, the
  entries of that id are as stated.
\<close>

theorem fold_minimality:
  "absorb (removeOf (shape i C)) (absorb (addOf (shape i A)) emptyChanges) = emptyChanges \<and>
   absorb (updateOf (shape i A) (shape i B)) (absorb (addOf (shape i A)) emptyChanges)
     = emptyChanges\<lparr>added := [i \<mapsto> shape i B]\<rparr> \<and>
   (updated p i = None \<longrightarrow>
      (let q = absorb (removeOf (shape i C)) (absorb (addOf (shape i A)) p)
       in added q i = None \<and> updated q i = None \<and> removed q i = None) \<and>
      (let q = absorb (updateOf (shape i A) (shape i B)) (absorb (addOf (shape i A)) p)
       in added q i = Some (shape i B) \<and> updated q i = None \<and> removed q i = None))"
  by (simp add: absorb_single shape_def emptyChanges_def)

theorem fold_minimality_witness:
  "updated (emptyChanges :: nat PendingChanges) ''shape:1'' = None \<and>
   absorb (removeOf (shape ''shape:1'' (7::nat))) (absorb (addOf (shape ''shape:1'' 7)) emptyChanges)
     = emptyChanges \<and>
   added (absorb (updateOf (shape ''shape:1'' (7::nat)) (shape ''shape:1'' 8))
            (absorb (addOf (shape ''shape:1'' 7)) emptyChanges)) ''shape:1''
     = Some (shape ''shape:1'' 8)"
  using fold_minimality [of "''shape:1''" "7::nat" 7 8 emptyChanges]
  by (simp add: emptyChanges_def)

text \<open>
  Claim C5. After any sequence of absorbed notifications, started from the empty buffer,
  every record id is in at most one of the three maps. The listener does not keep this:
  the loop over added records deletes a pending removal of the id but leaves a pending
  update in place, so an update of an id followed by an add of the same id leaves the id
  both in \<open>added\<close> and in \<open>updated\<close>.
\<close>

theorem update_then_add_overlaps:
  "added (absorb (addOf (shape ''shape:1'' (2::nat)))
            (absorb (updateOf (shape ''shape:1'' 1) (shape ''shape:1'' 2)) emptyChanges))
     ''shape:1'' = Some (shape ''shape:1'' 2) \<and>
   updated (absorb (addOf (shape ''shape:1'' (2::nat)))
            (absorb (updateOf (shape ''shape:1'' 1) (shape ''shape:1'' 2)) emptyChanges))
     ''shape:1'' = Some (shape ''shape:1'' 2) \<and>
   \<not> disjointIds (absorb (addOf (shape ''shape:1'' (2::nat)))
            (absorb (updateOf (shape ''shape:1'' 1) (shape ''shape:1'' 2)) emptyChanges))"
  by (simp add: absorb_single shape_def emptyChanges_def disjointIds_def)

text \<open>
  The other steps keep the maps apart, and so does the step for an added record whose id
  has no pending update: a notification keeps the maps apart unless it adds a record
  while an update of its id is pending.
\<close>

lemma disjointIds_empty: "disjointIds emptyChanges"
  by (simp add: disjointIds_def emptyChanges_def)

lemma disjointIds_absorbUpdated: "disjointIds p \<Longrightarrow> disjointIds (absorbUpdated c p)"
  by (auto simp: disjointIds_def absorbUpdated_def split: option.splits)

lemma disjointIds_absorbRemoved: "disjointIds p \<Longrightarrow> disjointIds (absorbRemoved r p)"
  by (auto simp: disjointIds_def absorbRemoved_def split: option.splits)

lemma disjointIds_absorbAdded:
  "disjointIds p \<Longrightarrow> updated p (rec_id r) = None \<Longrightarrow> disjointIds (absorbAdded r p)"
  by (auto simp: disjointIds_def absorbAdded_def)

lemma updated_absorbAdded: "updated (absorbAdded r p) = updated p"
  by (simp add: absorbAdded_def)

lemma disjointIds_fold_added:
  "disjointIds p \<Longrightarrow> list_all (\<lambda>r. updated p (rec_id r) = None) rs \<Longrightarrow>
   disjointIds (fold absorbAdded rs p)"
  by (induction rs arbitrary: p) (simp_all add: disjointIds_absorbAdded updated_absorbAdded)

lemma disjointIds_fold_updated: "disjointIds p \<Longrightarrow> disjointIds (fold absorbUpdated cs p)"
  by (induction cs arbitrary: p) (simp_all add: disjointIds_absorbUpdated)

lemma disjointIds_fold_removed: "disjointIds p \<Longrightarrow> disjointIds (fold absorbRemoved rs p)"
  by (induction rs arbitrary: p) (simp_all add: disjointIds_absorbRemoved)

lemma disjointIds_absorb:
  "disjointIds p \<Longrightarrow> list_all (\<lambda>r. updated p (rec_id r) = None) (diff_added n) \<Longrightarrow>
   disjointIds (absorb n p)"
  unfolding absorb_def
  by (intro disjointIds_fold_removed disjointIds_fold_updated disjointIds_fold_added)

section \<open>Putting records\<close>

lemma put_snoc: "put (rs @ [r]) doc = (put rs doc)(rec_id r \<mapsto> r)"
  by (simp add: put_def)

lemma put_lookup:
  "put rs doc i = (case lastWithId rs i of None \<Rightarrow> doc i | Some r \<Rightarrow> Some r)"
proof (induction rs rule: rev_induct)
  case Nil
  then show ?case by (simp add: put_def lastWithId_def)
next
  case (snoc r rs)
  then show ?case by (simp add: put_snoc lastWithId_def)
qed

lemma lastWithId_id: "lastWithId rs i = Some r \<Longrightarrow> rec_id r = i \<and> r \<in> set rs"
  unfolding lastWithId_def by (induction rs rule: rev_induct) (auto split: if_splits)

lemma map_of_collect_gen:
  "map_of (fold (\<lambda>r al. AList.update (rec_id r) r al) rs al) = put rs (map_of al)"
  by (induction rs arbitrary: al) (simp_all add: put_def update_conv')

lemma map_of_collectAdded: "map_of (collectAdded rs) = put rs Map.empty"
  by (simp add: collectAdded_def map_of_collect_gen)

lemma distinct_collect_gen:
  "distinct (map fst al) \<Longrightarrow>
   distinct (map fst (fold (\<lambda>r al. AList.update (rec_id r) r al) rs al))"
  by (induction rs arbitrary: al) (simp_all add: distinct_update)

lemma distinct_collectAdded: "distinct (map fst (collectAdded rs))"
  by (simp add: collectAdded_def distinct_collect_gen)

lemma collectAdded_keyed:
  assumes "(k, r) \<in> set (collectAdded rs)"
  shows "rec_id r = k"
proof -
  from assms have "map_of (collectAdded rs) k = Some r"
    by (simp add: distinct_collectAdded)
  then have "lastWithId rs k = Some r"
    by (simp add: map_of_collectAdded put_lookup split: option.splits)
  then show ?thesis by (simp add: lastWithId_id)
qed

lemma put_values:
  "distinct (map fst al) \<Longrightarrow> (\<And>k r. (k, r) \<in> set al \<Longrightarrow> rec_id r = k) \<Longrightarrow>
   put (map snd al) doc = doc ++ map_of al"
proof (induction al arbitrary: doc)
  case Nil
  then show ?case by (simp add: put_def)
next
  case (Cons e al)
  obtain k r where e: "e = (k, r)" by (cases e)
  with Cons.prems have k: "rec_id r = k" and nk: "k \<notin> fst ` set al" by auto
  have "put (map snd (e # al)) doc = put (map snd al) (doc(k \<mapsto> r))"
    by (simp add: put_def e k)
  also have "\<dots> = doc(k \<mapsto> r) ++ map_of al"
    using Cons.prems by (intro Cons.IH) auto
  also have "\<dots> = doc ++ map_of (e # al)"
    using nk
    by (auto simp: e map_add_def fun_eq_iff split: option.splits
          dest: map_of_SomeD intro: rev_image_eqI)
  finally show ?case .
qed

lemma put_collectAdded: "put (map snd (collectAdded rs)) doc = put rs doc"
proof -
  have "put (map snd (collectAdded rs)) doc = doc ++ put rs Map.empty"
    using collectAdded_keyed [of _ _ rs]
    by (simp add: put_values [OF distinct_collectAdded] map_of_collectAdded)
  also have "\<dots> = put rs doc"
    by (rule ext) (simp add: map_add_def put_lookup split: option.splits)
  finally show ?thesis .
qed

section \<open>Properties of the outbound path\<close>

lemma listener_remote: "listener now Remote changes b = b"
  by (simp add: listener_def)

lemma onRecords_frame:
  "onRecords now rs b =
     (if rs = [] then b\<lparr>loading := False\<rparr>
      else let created = storeNeeds b (put rs (document b));
               b1 = b\<lparr>document := put rs (document b), storeNeeds := (\<lambda>_. [])\<rparr>
           in (if created = [] then b1
               else listener now User
                      \<lparr>diff_added = created, diff_updated = [], diff_removed = []\<rparr> b1)
              \<lparr>loading := False\<rparr>)"
  by (simp add: onRecords_def mergeRemoteChanges_def ensureStoreIsUsable_def listener_remote
        put_collectAdded Let_def)

lemma advance_no_timer: "timers b = [] \<Longrightarrow> advance t b = b"
  by (simp add: advance_def)

lemma advance_one_timer:
  "timers b = [(h, d, a)] \<Longrightarrow>
   advance t b = (if d \<le> t then flushCallback d a (b\<lparr>timers := []\<rparr>) else b)"
  by (simp add: advance_def fireTimer_def)

lemma timers_flushCallback: "timers (flushCallback now a b) = timers b"
  by (simp add: flushCallback_def beginSend_def resetBuffer_def Let_def)

lemma timeoutRef_flushCallback: "timeoutRef (flushCallback now a b) = None"
  by (simp add: flushCallback_def beginSend_def resetBuffer_def Let_def)

subsection \<open>The timer discipline holds in every state the board reaches\<close>

lemma timerInv_iff:
  "timerInv b \<longleftrightarrow>
     (timers b = [] \<and> timeoutRef b = None) \<or>
     (\<exists>h d. timers b = [(h, d, pendingChanges b)] \<and> timeoutRef b = Some h)"
  by (auto simp: timerInv_def split: list.splits)

lemma timerInv_initial: "timerInv initialBoard"
  by (simp add: timerInv_def initialBoard_def)

lemma timerInv_advance: "timerInv b \<Longrightarrow> timerInv (advance t b)"
  unfolding timerInv_iff [of b]
proof (elim disjE conjE exE)
  assume "timers b = []" "timeoutRef b = None"
  then show ?thesis by (simp add: advance_no_timer timerInv_iff)
next
  fix h d assume t: "timers b = [(h, d, pendingChanges b)]" and r: "timeoutRef b = Some h"
  show ?thesis
  proof (cases "d \<le> t")
    case True
    then show ?thesis
      by (simp add: advance_one_timer [OF t] timerInv_iff timers_flushCallback
            timeoutRef_flushCallback)
  next
    case False
    then show ?thesis
      by (simp add: advance_one_timer [OF t] timerInv_iff t r)
  qed
qed

lemma listener_user_timers:
  "timerInv b \<Longrightarrow>
   timers (listener now User changes b) = [(nextHandle b, now + 500, pendingChanges b)] \<and>
   timeoutRef (listener now User changes b) = Some (nextHandle b) \<and>
   pendingChanges (listener now User changes b) = pendingChanges b"
  by (auto simp: timerInv_iff listener_def setTimeout_def clearTimeout_def Let_def)

lemma timerInv_listener: "timerInv b \<Longrightarrow> timerInv (listener now src changes b)"
  by (cases src)
     (simp_all add: listener_remote listener_user_timers
        timerInv_iff [of "listener now User changes b"])

lemma timerInv_cong:
  "timers b' = timers b \<Longrightarrow> timeoutRef b' = timeoutRef b \<Longrightarrow>
   pendingChanges b' = pendingChanges b \<Longrightarrow> timerInv b' = timerInv b"
  by (simp add: timerInv_iff)

lemma timerInv_loading: "timerInv (b\<lparr>loading := v\<rparr>) = timerInv b"
  by (rule timerInv_cong) simp_all

lemma timerInv_onRecords:
  assumes "timerInv b"
  shows "timerInv (onRecords now rs b)"
proof -
  have "timerInv (b\<lparr>document := d, storeNeeds := n\<rparr>)" for d n
    using assms timerInv_cong [of "b\<lparr>document := d, storeNeeds := n\<rparr>" b] by simp
  then show ?thesis
    using assms by (simp add: onRecords_frame Let_def timerInv_loading timerInv_listener)
qed

lemma timerInv_pushSettled: "timerInv (pushSettled ok b) = timerInv b"
  by (rule timerInv_cong) (simp_all add: pushSettled_def)

lemma timerInv_handle: "timerInv b \<Longrightarrow> timerInv (handle now ev b)"
  by (cases ev) (simp_all add: timerInv_listener timerInv_onRecords timerInv_pushSettled)

lemma timerInv_step: "timerInv b \<Longrightarrow> timerInv (step e b)"
  by (simp add: step_def timerInv_handle timerInv_advance)

lemma timerInv_run: "timerInv b \<Longrightarrow> timerInv (run es b)"
  unfolding run_def by (induction es arbitrary: b) (simp_all add: timerInv_step)

corollary timerInv_reachable: "timerInv (run es initialBoard)"
  by (rule timerInv_run) (rule timerInv_initial)

corollary timerInv_reachable_any_store: "timerInv (run es (initialBoard\<lparr>storeNeeds := n\<rparr>))"
  by (rule timerInv_run) (simp add: timerInv_def initialBoard_def)

subsection \<open>Remote changes\<close>

lemmas board_ops = flushCallback_def takeSnapshot_def resetBuffer_def beginSend_def
  pushSettled_def listener_def setTimeout_def clearTimeout_def advance_def fireTimer_def









subsection \<open>The flush\<close>

lemma boardWithEdit_timers: "timers boardWithEdit = [(1, 500, 0)]"
  by (simp add: boardWithEdit_def initialBoard_def listener_def setTimeout_def Let_def)

lemma boardWithEdit_inv: "timerInv boardWithEdit"
  unfolding boardWithEdit_def by (rule timerInv_listener) (rule timerInv_initial)

text \<open>
  Claim C3. When the debounce timer fires, the callback takes a copy of the pending
  change-set and resets the buffer to a new empty object before the send begins: the send
  starts on a board whose buffer is already empty. An absorption that comes after the
  snapshot, while the send is in flight, goes into the new buffer only: the push already
  made is unchanged, and the flush after it carries exactly the later changes, folded
  from the empty buffer.
\<close>

theorem snapshot_before_send:
  "timerInv b \<and> timers b = [(h, d, a)] \<and> d \<le> t \<longrightarrow>
   (let snap = heap b (pendingChanges b);
        later = absorb changes emptyChanges;
        b0 = resetBuffer (b\<lparr>timers := []\<rparr>);
        b1 = advance d b;
        b2 = listener t User changes (advance t b1);
        b3 = advance (t + 500) b2
    in heap b0 (pendingChanges b0) = emptyChanges \<and>
       b1 = beginSend d snap (b0\<lparr>flushes := flushes b @ [(d, snap)]\<rparr>) \<and>
       flushes b1 = flushes b @ [(d, snap)] \<and>
       pushes b1 = pushes b @ (if hasChanges snap then [(d, snap)] else []) \<and>
       heap b1 (pendingChanges b1) = emptyChanges \<and>
       heap b2 (pendingChanges b2) = later \<and>
       pushes b2 = pushes b1 \<and> flushes b2 = flushes b1 \<and>
       flushes b3 = flushes b @ [(d, snap), (t + 500, later)] \<and>
       pushes b3 = pushes b1 @ (if hasChanges later then [(t + 500, later)] else []))"
proof (intro impI, elim conjE)
  assume inv: "timerInv b" and tm: "timers b = [(h, d, a)]" and le: "d \<le> t"
  from inv tm have a: "a = pendingChanges b"
    by (auto simp: timerInv_iff)
  have b1: "advance d b = flushCallback d a (b\<lparr>timers := []\<rparr>)"
    by (simp add: advance_one_timer [OF tm])
  have t1: "timers (advance d b) = []"
    by (simp add: b1 timers_flushCallback)
  have b1t: "advance t (advance d b) = advance d b"
    by (simp add: advance_no_timer t1)
  show "let snap = heap b (pendingChanges b);
        later = absorb changes emptyChanges;
        b0 = resetBuffer (b\<lparr>timers := []\<rparr>);
        b1 = advance d b;
        b2 = listener t User changes (advance t b1);
        b3 = advance (t + 500) b2
    in heap b0 (pendingChanges b0) = emptyChanges \<and>
       b1 = beginSend d snap (b0\<lparr>flushes := flushes b @ [(d, snap)]\<rparr>) \<and>
       flushes b1 = flushes b @ [(d, snap)] \<and>
       pushes b1 = pushes b @ (if hasChanges snap then [(d, snap)] else []) \<and>
       heap b1 (pendingChanges b1) = emptyChanges \<and>
       heap b2 (pendingChanges b2) = later \<and>
       pushes b2 = pushes b1 \<and> flushes b2 = flushes b1 \<and>
       flushes b3 = flushes b @ [(d, snap), (t + 500, later)] \<and>
       pushes b3 = pushes b1 @ (if hasChanges later then [(t + 500, later)] else [])"
    unfolding Let_def b1t unfolding b1 a
    by (simp add: board_ops Let_def)
qed

theorem snapshot_before_send_witness:
  "timerInv boardWithEdit \<and> timers boardWithEdit = [(1, 500, 0)] \<and> (500::nat) \<le> 510 \<and>
   pushes (advance (510 + 500)
            (listener 510 User (addOf (shape ''shape:2'' 2))
              (advance 510 (advance 500 boardWithEdit))))
     = [(500, emptyChanges\<lparr>added := [''shape:1'' \<mapsto> shape ''shape:1'' 1]\<rparr>),
        (1010, emptyChanges\<lparr>added := [''shape:2'' \<mapsto> shape ''shape:2'' 2]\<rparr>)]"
proof -
  have snap: "heap boardWithEdit (pendingChanges boardWithEdit)
                = emptyChanges\<lparr>added := [''shape:1'' \<mapsto> shape ''shape:1'' 1]\<rparr>"
    by (simp add: boardWithEdit_def initialBoard_def listener_def setTimeout_def Let_def
          absorb_single emptyChanges_def shape_def)
  have none: "pushes boardWithEdit = []"
    by (simp add: boardWithEdit_def initialBoard_def listener_def setTimeout_def Let_def)
  have later: "absorb (addOf (shape ''shape:2'' (2::nat))) emptyChanges
                = emptyChanges\<lparr>added := [''shape:2'' \<mapsto> shape ''shape:2'' 2]\<rparr>"
    by (simp add: absorb_single emptyChanges_def shape_def)
  have ch: "hasChanges (emptyChanges\<lparr>added := [i \<mapsto> r]\<rparr>)" for i and r :: "nat TLRecord"
    by (simp add: hasChanges_def emptyChanges_def)
  have hyp: "timerInv boardWithEdit \<and> timers boardWithEdit = [(1, 500, 0)] \<and> (500::nat) \<le> 510"
    by (simp add: boardWithEdit_inv boardWithEdit_timers)
  note inst = snapshot_before_send [of boardWithEdit 1 500 0 510 "addOf (shape ''shape:2'' 2)",
      unfolded Let_def, THEN mp, OF hyp]
  note rest = inst [THEN conjunct2, THEN conjunct2, THEN conjunct2]
  note first = rest [THEN conjunct1]
  note second = rest [THEN conjunct2, THEN conjunct2, THEN conjunct2, THEN conjunct2,
      THEN conjunct2, THEN conjunct2]
  from hyp show ?thesis
    unfolding second first by (simp add: snap none later ch)
qed

text \<open>
  Claim C4. Every local absorption clears the live timer and sets the single timer anew,
  500 ms ahead: on any board that keeps the timer discipline, after an absorption at time
  \<open>t\<close> the table holds exactly one timer, due at \<open>t + 500\<close>; nothing fires before then,
  whatever timer was pending before, and at \<open>t + 500\<close> one flush carries the buffer with
  this change folded in. With edits at 0, 200 and 600 on the board as mounted there is no
  flush up to time 1099 and exactly one from 1100 on, at 1100, carrying the three edits
  folded in order; it is pushed when it has changes.
\<close>

theorem debounce_timing:
  "(timerInv b \<longrightarrow>
      (let b1 = listener t User changes b;
           folded = absorb changes (heap b (pendingChanges b))
       in timers b1 = [(nextHandle b, t + 500, pendingChanges b)] \<and>
          timeoutRef b1 = Some (nextHandle b) \<and>
          heap b1 (pendingChanges b1) = folded \<and>
          (k < 500 \<longrightarrow> advance (t + k) b1 = b1) \<and>
          flushes (advance (t + 500 + k) b1) = flushes b @ [(t + 500, folded)] \<and>
          pushes (advance (t + 500 + k) b1)
            = pushes b @ (if hasChanges folded then [(t + 500, folded)] else []))) \<and>
   (let b3 = run [(0, Notify User c0), (200, Notify User c1), (600, Notify User c2)] initialBoard;
        folded = absorb c2 (absorb c1 (absorb c0 emptyChanges))
    in flushes (advance 1099 b3) = [] \<and> pushes (advance 1099 b3) = [] \<and>
       flushes (advance (1100 + k) b3) = [(1100, folded)] \<and>
       pushes (advance (1100 + k) b3) = (if hasChanges folded then [(1100, folded)] else []))"
proof (intro conjI impI)
  assume inv: "timerInv b"
  note tm = listener_user_timers [OF inv, of t changes]
  have one: "timers (listener t User changes b) = [(nextHandle b, t + 500, pendingChanges b)]"
    using tm by simp
  have buf: "heap (listener t User changes b) (pendingChanges b)
               = absorb changes (heap b (pendingChanges b))"
    by (simp add: listener_def setTimeout_def clearTimeout_def Let_def split: option.splits)
  have log: "flushes (listener t User changes b) = flushes b"
            "pushes (listener t User changes b) = pushes b"
    by (simp_all add: listener_def setTimeout_def clearTimeout_def Let_def split: option.splits)
  show "let b1 = listener t User changes b;
           folded = absorb changes (heap b (pendingChanges b))
       in timers b1 = [(nextHandle b, t + 500, pendingChanges b)] \<and>
          timeoutRef b1 = Some (nextHandle b) \<and>
          heap b1 (pendingChanges b1) = folded \<and>
          (k < 500 \<longrightarrow> advance (t + k) b1 = b1) \<and>
          flushes (advance (t + 500 + k) b1) = flushes b @ [(t + 500, folded)] \<and>
          pushes (advance (t + 500 + k) b1)
            = pushes b @ (if hasChanges folded then [(t + 500, folded)] else [])"
    unfolding Let_def
    using tm buf log
    by (simp add: advance_one_timer [OF one] flushCallback_def takeSnapshot_def
          resetBuffer_def beginSend_def Let_def)
next
  show "let b3 = run [(0, Notify User c0), (200, Notify User c1), (600, Notify User c2)] initialBoard;
        folded = absorb c2 (absorb c1 (absorb c0 emptyChanges))
    in flushes (advance 1099 b3) = [] \<and> pushes (advance 1099 b3) = [] \<and>
       flushes (advance (1100 + k) b3) = [(1100, folded)] \<and>
       pushes (advance (1100 + k) b3) = (if hasChanges folded then [(1100, folded)] else [])"
    by (simp add: run_def step_def initialBoard_def board_ops Let_def)
qed

theorem debounce_timing_witness:
  "timerInv boardWithEdit \<and> (100::nat) < 500 \<and>
   timers (listener 200 User (addOf (shape ''shape:2'' 2)) boardWithEdit) = [(2, 700, 0)] \<and>
   advance (200 + 100) (listener 200 User (addOf (shape ''shape:2'' 2)) boardWithEdit)
     = listener 200 User (addOf (shape ''shape:2'' 2)) boardWithEdit"
proof -
  have h: "nextHandle boardWithEdit = 2" "pendingChanges boardWithEdit = 0"
    by (simp_all add: boardWithEdit_def initialBoard_def listener_def setTimeout_def Let_def)
  from debounce_timing [of boardWithEdit 200 "addOf (shape ''shape:2'' 2)" 100
      "addOf (shape ''shape:1'' 1)" "addOf (shape ''shape:1'' 1)" "addOf (shape ''shape:1'' 1)"]
    boardWithEdit_inv
  show ?thesis
    unfolding Let_def h by (elim conjE impE) simp_all
qed


subsection \<open>A rejected push\<close>

lemma sameOutbound_pushSettled_left: "sameOutbound (pushSettled ok b) b"
  by (simp add: sameOutbound_def pushSettled_def)

lemma sameOutbound_listener:
  "sameOutbound b b' \<Longrightarrow> sameOutbound (listener now src ch b) (listener now src ch b')"
  by (cases src)
     (auto simp: sameOutbound_def listener_def setTimeout_def clearTimeout_def Let_def
        split: option.splits)

lemma sameOutbound_loading:
  "sameOutbound b b' \<Longrightarrow> sameOutbound (b\<lparr>loading := v\<rparr>) (b'\<lparr>loading := v\<rparr>)"
  by (simp add: sameOutbound_def)

lemma sameOutbound_onRecords:
  assumes "sameOutbound b b'"
  shows "sameOutbound (onRecords now rs b) (onRecords now rs b')"
proof -
  from assms have eq: "storeNeeds b = storeNeeds b'" "document b = document b'"
    by (simp_all add: sameOutbound_def)
  from assms have "sameOutbound (b\<lparr>document := d, storeNeeds := n\<rparr>)
                     (b'\<lparr>document := d, storeNeeds := n\<rparr>)" for d n
    by (simp add: sameOutbound_def)
  then show ?thesis
    using assms
    by (simp add: onRecords_frame Let_def eq sameOutbound_loading sameOutbound_listener)
qed

lemma sameOutbound_pushSettled:
  "sameOutbound b b' \<Longrightarrow> sameOutbound (pushSettled ok b) (pushSettled ok' b')"
  by (simp add: sameOutbound_def pushSettled_def)

lemma sameOutbound_fireTimer:
  "sameOutbound b b' \<Longrightarrow> sameOutbound (fireTimer t b) (fireTimer t b')"
  by (simp add: sameOutbound_def fireTimer_def flushCallback_def takeSnapshot_def
        resetBuffer_def beginSend_def Let_def)

lemma sameOutbound_fold_fireTimer:
  "sameOutbound b b' \<Longrightarrow> sameOutbound (fold fireTimer ts b) (fold fireTimer ts b')"
  by (induction ts arbitrary: b b') (simp_all add: sameOutbound_fireTimer)

lemma sameOutbound_advance:
  assumes "sameOutbound b b'"
  shows "sameOutbound (advance t b) (advance t b')"
proof -
  from assms have "timers b = timers b'"
    by (simp add: sameOutbound_def)
  then show ?thesis
    unfolding advance_def by (simp add: sameOutbound_fold_fireTimer [OF assms])
qed

lemma sameOutbound_step:
  "sameOutbound b b' \<Longrightarrow> sameOutbound (step e b) (step e b')"
  unfolding step_def
  by (cases "snd e")
     (simp_all add: sameOutbound_listener sameOutbound_onRecords sameOutbound_pushSettled
        sameOutbound_advance)

lemma sameOutbound_run:
  "sameOutbound b b' \<Longrightarrow> sameOutbound (run es b) (run es b')"
  unfolding run_def by (induction es arbitrary: b b') (simp_all add: sameOutbound_step)

text \<open>
  Claim C6. When a push rejects, the catch block sets the status to the error state and
  does nothing else: the buffer, already reset, is not given the failed snapshot back, no
  timer is set and no push is made. Whatever happens afterwards, the pushes and flushes
  are those that would have happened without the rejection, so the failed snapshot is not
  sent again. Changes absorbed after the snapshot stay in the buffer through the
  rejection and are what the next flush pushes.
\<close>

theorem failed_push_not_retried:
  "(0 < inFlight b \<longrightarrow>
      pushSettled False b = b\<lparr>inFlight := inFlight b - 1, syncStatus := SyncError\<rparr>) \<and>
   pushes (run es (pushSettled False b)) = pushes (run es b) \<and>
   flushes (run es (pushSettled False b)) = flushes (run es b) \<and>
   (timerInv b \<and> timers b = [(h, d, a)] \<and> d \<le> t \<longrightarrow>
      (let snap = heap b (pendingChanges b);
           later = absorb changes emptyChanges;
           b1 = advance d b;
           b2 = pushSettled False b1;
           b3 = listener t User changes (advance t b2);
           b4 = advance (t + 500) b3
       in pushes b1 = pushes b @ (if hasChanges snap then [(d, snap)] else []) \<and>
          (hasChanges snap \<longrightarrow> syncStatus b2 = SyncError) \<and>
          heap b2 (pendingChanges b2) = emptyChanges \<and> timers b2 = [] \<and>
          pushes b2 = pushes b1 \<and>
          heap b3 (pendingChanges b3) = later \<and>
          pushes b4 = pushes b1 @ (if hasChanges later then [(t + 500, later)] else [])))"
proof (intro conjI impI)
  show "pushSettled False b = b\<lparr>inFlight := inFlight b - 1, syncStatus := SyncError\<rparr>"
    if "0 < inFlight b" using that by (simp add: pushSettled_def)
  have "sameOutbound (run es (pushSettled False b)) (run es b)"
    by (rule sameOutbound_run) (rule sameOutbound_pushSettled_left)
  then show "pushes (run es (pushSettled False b)) = pushes (run es b)"
    and "flushes (run es (pushSettled False b)) = flushes (run es b)"
    by (simp_all add: sameOutbound_def)
next
  assume "timerInv b \<and> timers b = [(h, d, a)] \<and> d \<le> t"
  then have inv: "timerInv b" and tm: "timers b = [(h, d, a)]" and le: "d \<le> t"
    by simp_all
  from inv tm have a: "a = pendingChanges b"
    by (auto simp: timerInv_iff)
  have b1: "advance d b = flushCallback d a (b\<lparr>timers := []\<rparr>)"
    by (simp add: advance_one_timer [OF tm])
  have t2: "timers (pushSettled False (advance d b)) = []"
    by (simp add: b1 timers_flushCallback pushSettled_def)
  have b2t: "advance t (pushSettled False (advance d b)) = pushSettled False (advance d b)"
    by (simp add: advance_no_timer t2)
  show "let snap = heap b (pendingChanges b);
           later = absorb changes emptyChanges;
           b1 = advance d b;
           b2 = pushSettled False b1;
           b3 = listener t User changes (advance t b2);
           b4 = advance (t + 500) b3
       in pushes b1 = pushes b @ (if hasChanges snap then [(d, snap)] else []) \<and>
          (hasChanges snap \<longrightarrow> syncStatus b2 = SyncError) \<and>
          heap b2 (pendingChanges b2) = emptyChanges \<and> timers b2 = [] \<and>
          pushes b2 = pushes b1 \<and>
          heap b3 (pendingChanges b3) = later \<and>
          pushes b4 = pushes b1 @ (if hasChanges later then [(t + 500, later)] else [])"
    unfolding Let_def b2t unfolding b1 a
    by (simp add: board_ops Let_def)
qed

theorem failed_push_not_retried_witness:
  "0 < inFlight boardBusy \<and>
   timerInv boardBusy \<and> timers boardBusy = [(2, 1010, 1)] \<and> (1010::nat) \<le> 1020 \<and>
   syncStatus (pushSettled False boardBusy) = SyncError \<and>
   heap (pushSettled False boardBusy) (pendingChanges (pushSettled False boardBusy))
     = heap boardBusy (pendingChanges boardBusy) \<and>
   pushes (pushSettled False boardBusy) = pushes boardBusy \<and>
   pushes (advance (1020 + 500)
            (listener 1020 User (addOf (shape ''shape:3'' 3))
              (advance 1020 (pushSettled False (advance 1010 boardBusy)))))
     = pushes (advance 1010 boardBusy) @
       [(1520, emptyChanges\<lparr>added := [''shape:3'' \<mapsto> shape ''shape:3'' 3]\<rparr>)]"
proof -
  have busy: "0 < inFlight boardBusy"
    by (simp add: boardBusy_def boardSending_def boardWithEdit_def initialBoard_def
          board_ops hasChanges_def absorb_single emptyChanges_def Let_def)
  have tm: "timers boardBusy = [(2, 1010, 1)]"
    by (simp add: boardBusy_def boardSending_def boardWithEdit_def initialBoard_def
          board_ops Let_def)
  have inv: "timerInv boardBusy"
    unfolding boardBusy_def boardSending_def
    by (intro timerInv_listener timerInv_advance boardWithEdit_inv)
  have hyp: "timerInv boardBusy \<and> timers boardBusy = [(2, 1010, 1)] \<and> (1010::nat) \<le> 1020"
    by (simp add: inv tm)
  have later: "absorb (addOf (shape ''shape:3'' (3::nat))) emptyChanges
                = emptyChanges\<lparr>added := [''shape:3'' \<mapsto> shape ''shape:3'' 3]\<rparr>"
    by (simp add: absorb_single emptyChanges_def shape_def)
  have ch: "hasChanges (emptyChanges\<lparr>added := [i \<mapsto> r]\<rparr>)" for i and r :: "nat TLRecord"
    by (simp add: hasChanges_def emptyChanges_def)
  note inst = failed_push_not_retried [of boardBusy "[]" 2 1010 1 1020 "addOf (shape ''shape:3'' 3)",
      unfolded Let_def]
  note settled = inst [THEN conjunct1, THEN mp, OF busy]
  note next_push = inst [THEN conjunct2, THEN conjunct2, THEN conjunct2, THEN mp, OF hyp,
      THEN conjunct2, THEN conjunct2, THEN conjunct2, THEN conjunct2, THEN conjunct2,
      THEN conjunct2]
  from busy hyp show ?thesis
    unfolding next_push unfolding settled by (simp add: later ch)
qed


section \<open>Properties of the inbound path\<close>

lemma document_listener: "document (listener now src changes b) = document b"
  by (cases src)
     (simp_all add: listener_def setTimeout_def clearTimeout_def Let_def split: option.splits)

lemma document_onRecords: "document (onRecords now rs b) = put rs (document b)"
proof (cases rs)
  case Nil
  then show ?thesis by (simp add: onRecords_frame put_def)
next
  case (Cons r rs')
  then show ?thesis by (simp add: onRecords_frame Let_def document_listener)
qed

text \<open>
  Claim C10. The inbound path only writes records: after a batch, the local document is
  what putting every record of the batch, in order, makes of it. It holds under every id
  of the batch the last record of the batch with that id, and under every other id what
  it held before. No id leaves the document, the change the store
  reports lists no removal, and a record absent from the batch is left as it was.
\<close>

theorem inbound_only_upserts:
  "document (onRecords now records b) = put records (document b) \<and>
   document (onRecords now records b)
     = (\<lambda>i. case lastWithId records i of None \<Rightarrow> document b i | Some r \<Rightarrow> Some r) \<and>
   dom (document b) \<subseteq> dom (document (onRecords now records b)) \<and>
   diff_removed (putDiff (map snd (collectAdded records)) (document b)) = [] \<and>
   (i \<notin> rec_id ` set records \<longrightarrow> document (onRecords now records b) i = document b i) \<and>
   (r \<in> set records \<longrightarrow>
      (\<exists>r'. r' \<in> set records \<and> rec_id r' = rec_id r \<and>
            lastWithId records (rec_id r) = Some r' \<and>
            document (onRecords now records b) (rec_id r) = Some r'))"
proof (intro conjI impI)
  show "document (onRecords now records b) = put records (document b)"
    by (rule document_onRecords)
  show eq: "document (onRecords now records b)
     = (\<lambda>i. case lastWithId records i of None \<Rightarrow> document b i | Some r \<Rightarrow> Some r)"
    by (rule ext) (simp add: document_onRecords put_lookup)
  show "dom (document b) \<subseteq> dom (document (onRecords now records b))"
    by (auto simp: eq split: option.splits)
  show "diff_removed (putDiff (map snd (collectAdded records)) (document b)) = []"
    by (simp add: putDiff_def)
  show "document (onRecords now records b) i = document b i" if "i \<notin> rec_id ` set records"
    using that lastWithId_id [of records i] by (auto simp: eq split: option.splits)
  show "\<exists>r'. r' \<in> set records \<and> rec_id r' = rec_id r \<and>
            lastWithId records (rec_id r) = Some r' \<and>
            document (onRecords now records b) (rec_id r) = Some r'" if "r \<in> set records"
  proof -
    from that have "lastWithId records (rec_id r) \<noteq> None"
      by (auto simp: lastWithId_def find_None_iff)
    then obtain r' where "lastWithId records (rec_id r) = Some r'" by auto
    then show ?thesis using lastWithId_id [of records "rec_id r" r'] by (auto simp: eq)
  qed
qed

theorem inbound_only_upserts_witness:
  "''shape:9'' \<notin> rec_id ` set [shape ''shape:1'' (5::nat), shape ''shape:2'' 6] \<and>
   shape ''shape:1'' 5 \<in> set [shape ''shape:1'' (5::nat), shape ''shape:2'' 6] \<and>
   document (onRecords 0 [shape ''shape:1'' 5, shape ''shape:2'' 6]
              (initialBoard\<lparr>document := [''shape:9'' \<mapsto> shape ''shape:9'' 4]\<rparr>)) ''shape:9''
     = Some (shape ''shape:9'' 4) \<and>
   document (onRecords 0 [shape ''shape:1'' 5, shape ''shape:2'' 6]
              (initialBoard\<lparr>document := [''shape:9'' \<mapsto> shape ''shape:9'' 4]\<rparr>)) ''shape:1''
     = Some (shape ''shape:1'' 5)"
proof -
  have out: "''shape:9'' \<notin> rec_id ` set [shape ''shape:1'' (5::nat), shape ''shape:2'' 6]"
    by (simp add: shape_def)
  have mem: "shape ''shape:1'' 5 \<in> set [shape ''shape:1'' (5::nat), shape ''shape:2'' 6]"
    by simp
  note inst = inbound_only_upserts [of 0 "[shape ''shape:1'' 5, shape ''shape:2'' 6]"
      "initialBoard\<lparr>document := [''shape:9'' \<mapsto> shape ''shape:9'' 4]\<rparr>" "''shape:9''"
      "shape ''shape:1'' 5"]
  note kept = inst [THEN conjunct2, THEN conjunct2, THEN conjunct2, THEN conjunct2,
      THEN conjunct1, THEN mp, OF out]
  note whole = inst [THEN conjunct2, THEN conjunct1]
  from out mem show ?thesis
    unfolding kept unfolding whole
    by (simp add: lastWithId_def shape_def initialBoard_def)
qed

section \<open>Properties of the presence code\<close>

lemma resolve_readable:
  "readable la \<Longrightarrow>
   resolveLastActive now la
     = Inr (case readMillis la of None \<Rightarrow> Finite (of_int now) | Some m \<Rightarrow> m)"
  by (cases la; simp add: readable_def readMillis_def resolveLastActive_def split: Member.splits)

lemma isActive_readable:
  "userId u = me \<or> readable (lastActive u) \<Longrightarrow>
   isActive me now u = Inr (userId u \<noteq> me \<and> seenRecently now (lastActive u))"
  by (auto simp: isActive_def resolve_readable seenRecently_def split: option.splits)

lemma filterE_total:
  "list_all (\<lambda>u. f u = Inr (P u)) us \<Longrightarrow> filterE f us = Inr (filter P us)"
  by (induction us) simp_all

lemma filterE_kept:
  "filterE f us = Inr kept \<Longrightarrow> u \<in> set kept \<Longrightarrow> f u = Inr True"
  by (induction us arbitrary: kept) (auto split: sum.splits if_splits)

lemma readable_Timestamp: "readable (Timestamp m)" and readable_DateObject: "readable (DateObject m)"
  by (simp_all add: readable_def Timestamp_def DateObject_def)

lemma seenRecently_Timestamp:
  "seenRecently now (Timestamp (Finite (of_int now - age))) \<longleftrightarrow> age < 60000"
  by (simp add: seenRecently_def readMillis_def Timestamp_def)

lemma seenRecently_DateObject:
  "seenRecently now (DateObject (Finite (of_int now - age))) \<longleftrightarrow> age < 60000"
  by (simp add: seenRecently_def readMillis_def DateObject_def)

text \<open>
  Claim C7, as the code has it. For a signed-in viewer (without one the callback returns
  at once and the displayed set stays as it is) and a presence update in which the
  timestamps of the other users can be read, the displayed set is exactly the received
  records, in their order, whose userId differs from the viewer's id and whose age is
  below 60000 ms. The age is read from a timestamp object or a Date, where it is the age
  the description speaks of; a record without one, and so a record whose \<^verbatim>\<open>lastActive\<close> is
  a plain number, has the age 0 and is shown. A record of another user whose timestamp
  object or Date lies 61000 ms back is left out and one 59000 ms back is shown; a record
  with the viewer's own id is left out whatever its timestamp, and no displayed set the
  callback produces holds a record with the viewer's id.
\<close>

theorem presence_filter:
  "(list_all (\<lambda>u. userId u = me \<or> readable (lastActive u)) users \<longrightarrow>
      onPresence (Some me) now users otherUsers
        = Inr (filter (\<lambda>u. userId u \<noteq> me \<and> seenRecently now (lastActive u)) users)) \<and>
   (userId u \<noteq> me \<longrightarrow>
      onPresence (Some me) now
          [u\<lparr>lastActive := Timestamp (Finite (of_int (now - 61000)))\<rparr>] otherUsers = Inr [] \<and>
      onPresence (Some me) now
          [u\<lparr>lastActive := Timestamp (Finite (of_int (now - 59000)))\<rparr>] otherUsers
        = Inr [u\<lparr>lastActive := Timestamp (Finite (of_int (now - 59000)))\<rparr>] \<and>
      onPresence (Some me) now
          [u\<lparr>lastActive := DateObject (Finite (of_int (now - 61000)))\<rparr>] otherUsers = Inr [] \<and>
      onPresence (Some me) now
          [u\<lparr>lastActive := DateObject (Finite (of_int (now - 59000)))\<rparr>] otherUsers
        = Inr [u\<lparr>lastActive := DateObject (Finite (of_int (now - 59000)))\<rparr>]) \<and>
   onPresence (Some (userId u)) now [u] otherUsers = Inr [] \<and>
   (onPresence (Some me) now users otherUsers = Inr shown \<longrightarrow> me \<notin> userId ` set shown) \<and>
   seenRecently now (Timestamp m) = claimedRecent now (Timestamp m) \<and>
   seenRecently now (DateObject m) = claimedRecent now (DateObject m) \<and>
   seenRecently now Absent = claimedRecent now Absent \<and>
   seenRecently now (EpochNumber n)"
proof (intro conjI impI)
  assume "list_all (\<lambda>u. userId u = me \<or> readable (lastActive u)) users"
  then have "list_all (\<lambda>u. isActive me now u
                = Inr (userId u \<noteq> me \<and> seenRecently now (lastActive u))) users"
    by (simp add: list_all_iff isActive_readable)
  then have "filterE (isActive me now) users
               = Inr (filter (\<lambda>u. userId u \<noteq> me \<and> seenRecently now (lastActive u)) users)"
    by (rule filterE_total)
  then show "onPresence (Some me) now users otherUsers
       = Inr (filter (\<lambda>u. userId u \<noteq> me \<and> seenRecently now (lastActive u)) users)"
    by (simp add: onPresence_def)
next
  assume other: "userId u \<noteq> me"
  show "onPresence (Some me) now
          [u\<lparr>lastActive := Timestamp (Finite (of_int (now - 61000)))\<rparr>] otherUsers = Inr []"
    and "onPresence (Some me) now
          [u\<lparr>lastActive := Timestamp (Finite (of_int (now - 59000)))\<rparr>] otherUsers
        = Inr [u\<lparr>lastActive := Timestamp (Finite (of_int (now - 59000)))\<rparr>]"
    and "onPresence (Some me) now
          [u\<lparr>lastActive := DateObject (Finite (of_int (now - 61000)))\<rparr>] otherUsers = Inr []"
    and "onPresence (Some me) now
          [u\<lparr>lastActive := DateObject (Finite (of_int (now - 59000)))\<rparr>] otherUsers
        = Inr [u\<lparr>lastActive := DateObject (Finite (of_int (now - 59000)))\<rparr>]"
    using other
    by (simp_all add: onPresence_def isActive_readable readable_Timestamp readable_DateObject
          seenRecently_Timestamp seenRecently_DateObject)
next
  show "onPresence (Some (userId u)) now [u] otherUsers = Inr []"
    by (simp add: onPresence_def isActive_def)
next
  assume "onPresence (Some me) now users otherUsers = Inr shown"
  then have kept: "filterE (isActive me now) users = Inr shown"
    by (simp add: onPresence_def split: sum.splits)
  show "me \<notin> userId ` set shown"
  proof
    assume "me \<in> userId ` set shown"
    then obtain v where v: "v \<in> set shown" "userId v = me" by auto
    from filterE_kept [OF kept v(1)] v(2) show False
      by (simp add: isActive_def)
  qed
qed (simp_all add: seenRecently_def claimedRecent_def readMillis_def claimedMillis_def
       Timestamp_def DateObject_def)

theorem presence_filter_witness:
  "list_all (\<lambda>u. userId u = ''me'' \<or> readable (lastActive u))
     [userAt ''ann'' (Timestamp (Finite 41000)), userAt ''bob'' (Timestamp (Finite 39000)),
      userAt ''me'' (Timestamp (Finite 99000)), userAt ''cy'' Absent] \<and>
   userId (userAt ''ann'' Absent) \<noteq> ''me'' \<and>
   onPresence (Some ''me'') 100000
     [userAt ''ann'' (Timestamp (Finite 41000)), userAt ''bob'' (Timestamp (Finite 39000)),
      userAt ''me'' (Timestamp (Finite 99000)), userAt ''cy'' Absent] []
     = Inr [userAt ''ann'' (Timestamp (Finite 41000)), userAt ''cy'' Absent] \<and>
   ''me'' \<notin> userId ` set [userAt ''ann'' (Timestamp (Finite 41000)), userAt ''cy'' Absent]"
proof -
  let ?users = "[userAt ''ann'' (Timestamp (Finite 41000)), userAt ''bob'' (Timestamp (Finite 39000)),
      userAt ''me'' (Timestamp (Finite 99000)), userAt ''cy'' Absent]"
  have ok: "list_all (\<lambda>u. userId u = ''me'' \<or> readable (lastActive u)) ?users"
    by (simp add: userAt_def readable_def Timestamp_def)
  have other: "userId (userAt ''ann'' Absent) \<noteq> ''me''"
    by (simp add: userAt_def)
  note inst = presence_filter [where users = ?users and me = "''me''" and now = 100000
      and otherUsers = "[]" and u = "userAt ''ann'' Absent"
      and shown = "[userAt ''ann'' (Timestamp (Finite 41000)), userAt ''cy'' Absent]"]
  note shown = inst [THEN conjunct1, THEN mp, OF ok]
  have result: "onPresence (Some ''me'') 100000 ?users []
     = Inr [userAt ''ann'' (Timestamp (Finite 41000)), userAt ''cy'' Absent]"
    unfolding shown by (simp add: userAt_def seenRecently_def readMillis_def Timestamp_def)
  note absent = inst [THEN conjunct2, THEN conjunct2, THEN conjunct2, THEN conjunct1,
      THEN mp, OF result]
  from ok other result absent show ?thesis
    by blast
qed

text \<open>
  Claim C7 as stated fails: a record of another user whose \<^verbatim>\<open>lastActive\<close> is the plain
  number of milliseconds 61000 ms back, an age above the threshold, is shown, where the
  claim leaves it out; and an update with a record whose timestamp cannot be read makes
  the callback throw, so that the displayed set stays what it was.
\<close>

theorem stale_number_is_shown:
  "onPresence (Some ''me'') 100000 [userAt ''ann'' (EpochNumber (Finite 39000))] []
     = Inr [userAt ''ann'' (EpochNumber (Finite 39000))] \<and>
   \<not> claimedRecent 100000 (EpochNumber (Finite 39000)) \<and>
   filter (\<lambda>u. userId u \<noteq> ''me'' \<and> claimedRecent 100000 (lastActive u))
     [userAt ''ann'' (EpochNumber (Finite 39000))] = [] \<and>
   onPresence (Some ''me'') 100000
     [userAt ''ann'' (ObjectWith TruthyValue Falsy)] [userAt ''bob'' Absent] = Inl TypeError"
  by (simp add: onPresence_def isActive_def resolveLastActive_def userAt_def
        claimedRecent_def claimedMillis_def)



text \<open>
  Claim C9, as the code has it. A tick publishes nothing while fewer than 100 ms have
  passed since the last publish, or when a sampled coordinate is NaN; in every other
  case, infinite coordinates included, it publishes one payload whose coordinates are
  \<^verbatim>\<open>Math.round\<close> of the sampled ones. For a finite coordinate that is the nearest integer
  (a tie going up); an infinite coordinate is published as it is.
\<close>

theorem publisher_skips_NaN:
  "broadcastTick now user pn (px, py) s
     = (if now - lastBroadcastRef s < 100 \<or> px = NaN \<or> py = NaN then s
        else s\<lparr>published := published s @
                  [\<lparr>p_userId = auth_uid user,
                    p_userName = displayName pn (auth_email user),
                    p_color = ''#3b82f6'',
                    p_x = mathRound px, p_y = mathRound py\<rparr>],
                lastBroadcastRef := now\<rparr>) \<and>
   (\<exists>k::int. mathRound (Finite r) = Finite (of_int k) \<and>
             r - 1 / 2 < of_int k \<and> of_int k \<le> r + 1 / 2) \<and>
   mathRound PosInf = PosInf \<and> mathRound NegInf = NegInf \<and> mathRound NaN = NaN"
proof (intro conjI)
  show "\<exists>k::int. mathRound (Finite r) = Finite (of_int k) \<and>
             r - 1 / 2 < of_int k \<and> of_int k \<le> r + 1 / 2"
  proof (intro exI conjI)
    show "mathRound (Finite r) = Finite (of_int \<lfloor>r + 1 / 2\<rfloor>)"
      by (simp add: mathRound_def)
    show "r - 1 / 2 < of_int \<lfloor>r + 1 / 2\<rfloor>" by linarith
    show "of_int \<lfloor>r + 1 / 2\<rfloor> \<le> r + 1 / 2" by linarith
  qed
qed (simp_all add: broadcastTick_def isNaN_def mathRound_def)

text \<open>
  Claim C9 as stated fails: with the pointer at an infinite coordinate, which is not a
  finite number, the tick still publishes, and the coordinate it publishes is no integer.
\<close>

theorem publisher_sends_infinity:
  "published (broadcastTick 1000 \<lparr>auth_uid = ''u1'', auth_email = None\<rparr> None (PosInf, Finite 3)
       \<lparr>lastBroadcastRef = 0, published = []\<rparr>)
   = [\<lparr>p_userId = ''u1'', p_userName = ''Anon'', p_color = ''#3b82f6'',
       p_x = PosInf, p_y = Finite 3\<rparr>]"
  by (simp add: broadcastTick_def isNaN_def mathRound_def displayName_def)


end
